theory Spec2Isabelle
  imports Main "HOL-Library.Char_ord" "HOL-Library.List_Lexorder"
begin

section \<open>The state-machine model\<close>

text \<open>
  Modelled from the spec: the header \<^verbatim>\<open>MealyMachine.h\<close>, which declares
  \<^verbatim>\<open>State\<close>, \<^verbatim>\<open>Transition\<close> and \<^verbatim>\<open>StateMachine\<close>, is not among the sources.
  The fields are those of section 3 of the specification, which are also the ones that
  \<^verbatim>\<open>Verifier.cpp\<close> reads and \<^verbatim>\<open>addon.cc\<close> fills. A \<^verbatim>\<open>std::string\<close> is a
  \<open>string\<close> (a list of bytes), a \<^verbatim>\<open>std::vector\<close> is a list. The fields
  \<^verbatim>\<open>id\<close>, \<^verbatim>\<open>name\<close>, \<^verbatim>\<open>from\<close> and \<^verbatim>\<open>to\<close> carry a prefix, because three
  structs share the first two and the last two are reserved words.
\<close>

record State =
  s_id :: string
  s_name :: string
  isInitial :: bool
  isFinal :: bool

record Transition =
  t_id :: string
  t_from :: string
  t_to :: string
  t_input :: string
  t_output :: string

record StateMachine =
  m_id :: string
  m_name :: string
  m_type :: string
  states :: "State list"
  transitions :: "Transition list"

section \<open>Reachability\<close>

text \<open>
  The first loop of \<^verbatim>\<open>reachableStatesBFS\<close>: \<^verbatim>\<open>initialStateId\<close> starts as the
  empty string and takes the identifier of the first state flagged initial, where the
  loop breaks.
\<close>

primrec findInitial :: "State list \<Rightarrow> string" where
  "findInitial [] = []"
| "findInitial (s # ss) = (if isInitial s then s_id s else findInitial ss)"

text \<open>
  The inner \<^verbatim>\<open>for\<close> loop over the transitions, for the state \<open>c\<close> taken off the
  queue. It carries the set \<^verbatim>\<open>reachable\<close> and the queue; a target that is not yet
  in the set is inserted and pushed at the back of the queue.
\<close>

fun expand :: "string \<Rightarrow> Transition list \<Rightarrow> string set \<times> string list \<Rightarrow> string set \<times> string list" where
  "expand c [] (R, q) = (R, q)"
| "expand c (t # ts) (R, q) =
     (if t_from t = c \<and> t_to t \<notin> R
      then expand c ts (insert (t_to t) R, q @ [t_to t])
      else expand c ts (R, q))"

lemma expand_grows:
  "expand c ts (R, q) = (R', q') \<Longrightarrow>
     R \<subseteq> R' \<and> R' \<subseteq> R \<union> t_to ` set ts \<and> (R' = R \<longrightarrow> q' = q)"
proof (induction ts arbitrary: R q)
  case Nil
  then show ?case by simp
next
  case (Cons t ts)
  show ?case
  proof (cases "t_from t = c \<and> t_to t \<notin> R")
    case True
    with Cons.prems have "expand c ts (insert (t_to t) R, q @ [t_to t]) = (R', q')"
      by simp
    from Cons.IH [OF this] True show ?thesis by auto
  next
    case False
    with Cons.prems have "expand c ts (R, q) = (R', q')"
      by auto
    from Cons.IH [OF this] show ?thesis by auto
  qed
qed

text \<open>
  The \<^verbatim>\<open>while (!queue.empty())\<close> loop. It ends because every round either adds a
  new transition target to the set or leaves the set as it is and shortens the queue.
\<close>

function bfs_loop :: "Transition list \<Rightarrow> string list \<Rightarrow> string set \<Rightarrow> string set" where
  "bfs_loop ts [] R = R"
| "bfs_loop ts (c # q) R = (case expand c ts (R, q) of (R', q') \<Rightarrow> bfs_loop ts q' R')"
  by pat_completeness auto

termination
proof (relation "inv_image (less_than <*lex*> less_than)
    (\<lambda>(ts, q, R). (card (t_to ` set ts - R), length q))", goal_cases)
  case 1
  show ?case by (intro wf_inv_image wf_lex_prod wf_less_than)
next
  case (2 ts c q R R' q')
  then have e: "expand c ts (R, q) = (R', q')" by simp
  from expand_grows [OF e]
  have sub: "R \<subseteq> R'" and up: "R' \<subseteq> R \<union> t_to ` set ts" and same: "R' = R \<longrightarrow> q' = q"
    by auto
  show ?case
  proof (cases "R' = R")
    case True
    with same show ?thesis by simp
  next
    case False
    with sub up have "t_to ` set ts - R' \<subset> t_to ` set ts - R" by auto
    then have "card (t_to ` set ts - R') < card (t_to ` set ts - R)"
      by (intro psubset_card_mono) auto
    then show ?thesis by simp
  qed
qed

declare bfs_loop.simps [simp del]

definition reachableStatesBFS :: "StateMachine \<Rightarrow> string set" where
  "reachableStatesBFS machine =
     (let initialStateId = findInitial (states machine)
      in if initialStateId = [] then {}
         else bfs_loop (transitions machine) [initialStateId] {initialStateId})"

text \<open>
  \<^verbatim>\<open>getReachableStates\<close> copies the set into a vector. A \<^verbatim>\<open>std::set\<close> of
  strings iterates in ascending order, comparing byte by byte and a proper prefix first,
  which is the lexicographic order of \<open>string\<close> over the order of \<open>char\<close> by code.
\<close>

definition getReachableStates :: "StateMachine \<Rightarrow> string list" where
  "getReachableStates machine = sorted_list_of_set (reachableStatesBFS machine)"

record ReachabilityResult =
  isReachable :: bool
  path :: "string list"
  message :: string

definition isStateReachable :: "StateMachine \<Rightarrow> string \<Rightarrow> ReachabilityResult" where
  "isStateReachable machine targetStateId =
     (let result = \<lparr>isReachable = False, path = [], message = ''State not reachable''\<rparr>;
          reachable = reachableStatesBFS machine
      in if targetStateId \<in> reachable
         then result\<lparr>isReachable := True, message := ''State is reachable''\<rparr>
         else result\<lparr>message := ''State is not reachable from initial state''\<rparr>)"

section \<open>Deadlocks and livelocks\<close>

text \<open>Both predicates scan the transitions and return at the first one that decides.\<close>

primrec isDeadlock_loop :: "Transition list \<Rightarrow> string \<Rightarrow> bool" where
  "isDeadlock_loop [] stateId = True"
| "isDeadlock_loop (t # ts) stateId =
     (if t_from t = stateId then False else isDeadlock_loop ts stateId)"

definition isDeadlock :: "StateMachine \<Rightarrow> string \<Rightarrow> bool" where
  "isDeadlock machine stateId = isDeadlock_loop (transitions machine) stateId"

primrec findDeadlocks_loop :: "StateMachine \<Rightarrow> State list \<Rightarrow> string list \<Rightarrow> string list" where
  "findDeadlocks_loop machine [] deadlocks = deadlocks"
| "findDeadlocks_loop machine (s # ss) deadlocks =
     (if isDeadlock machine (s_id s) \<and> \<not> isFinal s
      then findDeadlocks_loop machine ss (deadlocks @ [s_id s])
      else findDeadlocks_loop machine ss deadlocks)"

definition findDeadlocks :: "StateMachine \<Rightarrow> string list" where
  "findDeadlocks machine = findDeadlocks_loop machine (states machine) []"

primrec isLivelock_loop :: "Transition list \<Rightarrow> string \<Rightarrow> bool" where
  "isLivelock_loop [] stateId = True"
| "isLivelock_loop (t # ts) stateId =
     (if t_from t = stateId \<and> t_to t \<noteq> stateId then False else isLivelock_loop ts stateId)"

definition isLivelock :: "StateMachine \<Rightarrow> string \<Rightarrow> bool" where
  "isLivelock machine stateId = isLivelock_loop (transitions machine) stateId"

section \<open>The invariant evaluator\<close>

text \<open>
  The lookup of the current state: a pointer to the first state with the identifier,
  \<^verbatim>\<open>nullptr\<close> (here \<open>None\<close>) when there is none.
\<close>

primrec findState :: "State list \<Rightarrow> string \<Rightarrow> State option" where
  "findState [] stateId = None"
| "findState (s # ss) stateId = (if s_id s = stateId then Some s else findState ss stateId)"

text \<open>
  \<^verbatim>\<open>std::string::find\<close> gives the first position where the pattern starts, or
  \<^verbatim>\<open>npos\<close> (here \<open>None\<close>).
\<close>

primrec str_find :: "string \<Rightarrow> string \<Rightarrow> nat option" where
  "str_find [] p = (if p = [] then Some 0 else None)"
| "str_find (c # cs) p =
     (if take (length p) (c # cs) = p then Some 0 else map_option Suc (str_find cs p))"

text \<open>
  \<^verbatim>\<open>iss >> tok\<close> on a string stream skips the leading white space of the classic
  locale (space, tab, line feed, vertical tab, form feed, carriage return) and then reads
  up to the next white space or the end. When nothing is left the extraction fails and
  the target, a fresh string, stays empty, as does the target of every later extraction.
  \<open>extract_token\<close> returns the token and the rest of the stream.
\<close>

definition isspace :: "char \<Rightarrow> bool" where
  "isspace c = (c = CHR 0x20 \<or> c = CHR 0x09 \<or> c = CHR 0x0A \<or> c = CHR 0x0B
     \<or> c = CHR 0x0C \<or> c = CHR 0x0D)"

definition extract_token :: "string \<Rightarrow> string \<times> string" where
  "extract_token s =
     (let s' = dropWhile isspace s
      in (takeWhile (\<lambda>c. \<not> isspace c) s', dropWhile (\<lambda>c. \<not> isspace c) s'))"

text \<open>\<^verbatim>\<open>iss >> state >> op >> value\<close>, returning the three targets.\<close>

definition parseExpression :: "string \<Rightarrow> string \<times> string \<times> string" where
  "parseExpression expression =
     (case extract_token expression of (state, r1) \<Rightarrow>
      case extract_token r1 of (op, r2) \<Rightarrow>
      case extract_token r2 of (val, r3) \<Rightarrow> (state, op, val))"

definition evaluateExpression :: "string \<Rightarrow> StateMachine \<Rightarrow> string \<Rightarrow> bool" where
  "evaluateExpression expression machine currentStateId =
     (case findState (states machine) currentStateId of
        None \<Rightarrow> False
      | Some currentState \<Rightarrow>
          if str_find expression ''!='' \<noteq> None
          then (case parseExpression expression of (state, op, val) \<Rightarrow> s_name currentState \<noteq> val)
          else if str_find expression ''=='' \<noteq> None
          then (case parseExpression expression of (state, op, val) \<Rightarrow> s_name currentState = val)
          else True)"

record InvariantCheckResult =
  holds :: bool
  failingState :: string
  failingPath :: "string list"
  inv_message :: string

primrec checkInvariant_loop ::
  "StateMachine \<Rightarrow> string \<Rightarrow> string list \<Rightarrow> InvariantCheckResult \<Rightarrow> InvariantCheckResult" where
  "checkInvariant_loop machine invariantExpression [] result = result"
| "checkInvariant_loop machine invariantExpression (stateId # rest) result =
     (if \<not> evaluateExpression invariantExpression machine stateId
      then result\<lparr>holds := False, failingState := stateId,
             failingPath := failingPath result @ [stateId],
             inv_message := ''Invariant violated at state: '' @ stateId\<rparr>
      else checkInvariant_loop machine invariantExpression rest result)"

definition checkInvariant :: "StateMachine \<Rightarrow> string \<Rightarrow> InvariantCheckResult" where
  "checkInvariant machine invariantExpression =
     checkInvariant_loop machine invariantExpression (getReachableStates machine)
       \<lparr>holds = True, failingState = [], failingPath = [],
        inv_message = ''Invariant holds on all reachable states''\<rparr>"

section \<open>Reachability of a final state\<close>

primrec canReachFinalState_loop ::
  "string set \<Rightarrow> State list \<Rightarrow> ReachabilityResult \<Rightarrow> ReachabilityResult" where
  "canReachFinalState_loop reachable [] result = result"
| "canReachFinalState_loop reachable (s # ss) result =
     (if isFinal s \<and> s_id s \<in> reachable
      then result\<lparr>isReachable := True,
             message := ''Final state '' @ [CHR 0x27] @ s_name s @ [CHR 0x27] @ '' is reachable''\<rparr>
      else canReachFinalState_loop reachable ss result)"

definition canReachFinalState :: "StateMachine \<Rightarrow> ReachabilityResult" where
  "canReachFinalState machine =
     canReachFinalState_loop (reachableStatesBFS machine) (states machine)
       \<lparr>isReachable = False, path = [], message = ''No final state reachable''\<rparr>"

section \<open>The verification report\<close>

text \<open>
  The counters of the report are C++ \<^verbatim>\<open>int\<close>s. They count the elements of vectors
  that are held in memory, which stay far below \<open>2^31\<close>, so they are modelled as
  unbounded integers, without wrap-around.
\<close>

record VerificationReport =
  isValid :: bool
  errors :: "string list"
  warnings :: "string list"
  reachableStates :: int
  totalStates :: int
  deadlocks :: "string list"
  summary :: string

text \<open>Step 1: count the states flagged initial and report zero or several.\<close>

primrec countInitial :: "State list \<Rightarrow> int \<Rightarrow> int" where
  "countInitial [] initialCount = initialCount"
| "countInitial (s # ss) initialCount =
     (if isInitial s then countInitial ss (initialCount + 1) else countInitial ss initialCount)"

definition checkInitial :: "StateMachine \<Rightarrow> VerificationReport \<Rightarrow> VerificationReport" where
  "checkInitial machine report =
     (let initialCount = countInitial (states machine) 0
      in if initialCount = 0
         then report\<lparr>isValid := False,
                errors := errors report @ [''ERROR: No initial state defined'']\<rparr>
         else if initialCount > 1
         then report\<lparr>isValid := False,
                errors := errors report @ [''ERROR: Multiple initial states defined'']\<rparr>
         else report)"

text \<open>
  Step 2: for each transition the inner loop runs over all the states, without a break,
  and sets the two flags; then each missing endpoint is an error.
\<close>

primrec endpointsExist :: "State list \<Rightarrow> Transition \<Rightarrow> bool \<times> bool \<Rightarrow> bool \<times> bool" where
  "endpointsExist [] transition flags = flags"
| "endpointsExist (s # ss) transition flags =
     (case flags of (fromExists, toExists) \<Rightarrow>
        endpointsExist ss transition
          (if s_id s = t_from transition then True else fromExists,
           if s_id s = t_to transition then True else toExists))"

definition checkTransition ::
  "StateMachine \<Rightarrow> Transition \<Rightarrow> VerificationReport \<Rightarrow> VerificationReport" where
  "checkTransition machine transition report =
     (case endpointsExist (states machine) transition (False, False) of
        (fromExists, toExists) \<Rightarrow>
          (let r1 = (if \<not> fromExists
                     then report\<lparr>isValid := False,
                            errors := errors report
                              @ [''ERROR: Transition from non-existent state: '' @ t_from transition]\<rparr>
                     else report)
           in if \<not> toExists
              then r1\<lparr>isValid := False,
                     errors := errors r1
                       @ [''ERROR: Transition to non-existent state: '' @ t_to transition]\<rparr>
              else r1))"

primrec checkTransitions ::
  "StateMachine \<Rightarrow> Transition list \<Rightarrow> VerificationReport \<Rightarrow> VerificationReport" where
  "checkTransitions machine [] report = report"
| "checkTransitions machine (t # ts) report =
     checkTransitions machine ts (checkTransition machine t report)"

text \<open>
  Steps 3 and 4: the two counts, and under the guard
  \<^verbatim>\<open>reachableStates < totalStates\<close> a warning for each state whose identifier
  \<^verbatim>\<open>std::find\<close> does not meet in the vector of reachable identifiers.
\<close>

primrec warnUnreachable :: "string list \<Rightarrow> State list \<Rightarrow> string list \<Rightarrow> string list" where
  "warnUnreachable reachable [] ws = ws"
| "warnUnreachable reachable (s # ss) ws =
     (if s_id s \<notin> set reachable
      then warnUnreachable reachable ss (ws @ [''WARNING: Unreachable state: '' @ s_name s])
      else warnUnreachable reachable ss ws)"

definition checkReachability :: "StateMachine \<Rightarrow> VerificationReport \<Rightarrow> VerificationReport" where
  "checkReachability machine report =
     (let reachable = getReachableStates machine;
          r1 = report\<lparr>reachableStates := int (length reachable),
                 totalStates := int (length (states machine))\<rparr>
      in if reachableStates r1 < totalStates r1
         then r1\<lparr>warnings := warnUnreachable reachable (states machine) (warnings r1)\<rparr>
         else r1)"

text \<open>Step 5: the deadlocks, each with a warning.\<close>

primrec warnDeadlocks :: "string list \<Rightarrow> string list \<Rightarrow> string list" where
  "warnDeadlocks [] ws = ws"
| "warnDeadlocks (deadlock # rest) ws =
     warnDeadlocks rest (ws @ [''WARNING: Potential deadlock state: '' @ deadlock])"

definition checkDeadlocks :: "StateMachine \<Rightarrow> VerificationReport \<Rightarrow> VerificationReport" where
  "checkDeadlocks machine report =
     (let r1 = report\<lparr>deadlocks := findDeadlocks machine\<rparr>
      in if deadlocks r1 \<noteq> []
         then r1\<lparr>warnings := warnDeadlocks (deadlocks r1) (warnings r1)\<rparr>
         else r1)"

text \<open>Step 6: a warning when no final state is reachable.\<close>

definition checkFinal :: "StateMachine \<Rightarrow> VerificationReport \<Rightarrow> VerificationReport" where
  "checkFinal machine report =
     (let finalReachable = canReachFinalState machine
      in if \<not> isReachable finalReachable
         then report\<lparr>warnings := warnings report @ [''WARNING: No final state is reachable'']\<rparr>
         else report)"

text \<open>Step 7: the summary line; the stream prints the counts in decimal.\<close>

fun show_nat :: "nat \<Rightarrow> string" where
  "show_nat n =
     (if n < 10 then [char_of (48 + n)] else show_nat (n div 10) @ [char_of (48 + n mod 10)])"

definition show_int :: "int \<Rightarrow> string" where
  "show_int i = (if i < 0 then CHR ''-'' # show_nat (nat (- i)) else show_nat (nat i))"

definition makeSummary :: "StateMachine \<Rightarrow> VerificationReport \<Rightarrow> VerificationReport" where
  "makeSummary machine report =
     report\<lparr>summary :=
       ''States: '' @ show_int (totalStates report)
       @ '' (Reachable: '' @ show_int (reachableStates report) @ '')''
       @ '' | Transitions: '' @ show_nat (length (transitions machine))
       @ '' | Status: '' @ (if isValid report then ''VALID'' else ''INVALID'')\<rparr>"

text \<open>
  The report as declared, with \<^verbatim>\<open>isValid\<close> set to true; the two counters are
  assigned in step 3 before they are read.
\<close>

definition newReport :: VerificationReport where
  "newReport = \<lparr>isValid = True, errors = [], warnings = [], reachableStates = 0,
     totalStates = 0, deadlocks = [], summary = []\<rparr>"

text \<open>Steps 1 and 2 are the structural checks, the only ones that write \<^verbatim>\<open>isValid\<close>.\<close>

definition structuralChecks :: "StateMachine \<Rightarrow> VerificationReport" where
  "structuralChecks machine =
     checkTransitions machine (transitions machine) (checkInitial machine newReport)"

definition generateReport :: "StateMachine \<Rightarrow> VerificationReport" where
  "generateReport machine =
     makeSummary machine
       (checkFinal machine
         (checkDeadlocks machine
           (checkReachability machine (structuralChecks machine))))"

section \<open>Notions of the specification\<close>

text \<open>
  The specification speaks of the states reachable by following transition edges and of
  the white-space separated tokens of an expression. Both are defined here on their own,
  to be compared with what the code computes. The edges of a machine are the pairs
  \<open>(from, to)\<close> of its transitions.
\<close>

definition edges :: "Transition list \<Rightarrow> (string \<times> string) set" where
  "edges ts = (\<lambda>t. (t_from t, t_to t)) ` set ts"

text \<open>
  The tokens of a string: the maximal runs of characters that are not white space, from
  left to right. \<open>spec_token n s\<close> is the token at position \<open>n\<close>, counted from
  zero, and the empty string when there are not that many tokens.
\<close>

function spec_tokens :: "string \<Rightarrow> string list" where
  "spec_tokens s =
     (case dropWhile isspace s of
        [] \<Rightarrow> []
      | c # cs \<Rightarrow> takeWhile (\<lambda>c. \<not> isspace c) (c # cs)
                 # spec_tokens (dropWhile (\<lambda>c. \<not> isspace c) (c # cs)))"
  by pat_completeness auto

termination
proof (relation "measure length", goal_cases)
  case 1
  show ?case by simp
next
  case (2 s c cs)
  have "\<not> isspace c"
    using hd_dropWhile [of isspace s] 2 by (metis list.sel(1) list.simps(3))
  then have "length (dropWhile (\<lambda>c. \<not> isspace c) (c # cs)) \<le> length cs"
    by (simp add: length_dropWhile_le)
  also have "length cs < length (dropWhile isspace s)"
    using 2 by (metis length_Cons lessI)
  also have "\<dots> \<le> length s" by (rule length_dropWhile_le)
  finally show ?case by simp
qed

declare spec_tokens.simps [simp del]

definition spec_token :: "nat \<Rightarrow> string \<Rightarrow> string" where
  "spec_token n s = (if n < length (spec_tokens s) then spec_tokens s ! n else [])"


section \<open>Example machines\<close>

text \<open>
  Scenario 1 of the specification: \<open>A\<close> (initial), \<open>B\<close>, \<open>C\<close> (final), with the
  transitions \<open>A \<rightarrow> B\<close> and \<open>B \<rightarrow> C\<close>.
\<close>

definition state_A :: State where
  "state_A = \<lparr>s_id = ''A'', s_name = ''Idle'', isInitial = True, isFinal = False\<rparr>"

definition state_B :: State where
  "state_B = \<lparr>s_id = ''B'', s_name = ''Busy'', isInitial = False, isFinal = False\<rparr>"

definition state_C :: State where
  "state_C = \<lparr>s_id = ''C'', s_name = ''Done'', isInitial = False, isFinal = True\<rparr>"

definition edge :: "string \<Rightarrow> string \<Rightarrow> Transition" where
  "edge a b = \<lparr>t_id = a @ ''-'' @ b, t_from = a, t_to = b, t_input = [], t_output = []\<rparr>"

definition scenario1 :: StateMachine where
  "scenario1 =
     \<lparr>m_id = ''m1'', m_name = ''Scenario 1'', m_type = ''mealy'',
      states = [state_A, state_B, state_C],
      transitions = [edge ''A'' ''B'', edge ''B'' ''C'']\<rparr>"

text \<open>
  Scenario 2: \<open>A\<close> (initial) and \<open>B\<close>; the only transition is a loop on \<open>A\<close>, so
  that \<open>B\<close> has no transition from it or to it.
\<close>

definition scenario2 :: StateMachine where
  "scenario2 =
     \<lparr>m_id = ''m2'', m_name = ''Scenario 2'', m_type = ''moore'',
      states = [state_A, state_B], transitions = [edge ''A'' ''A'']\<rparr>"

text \<open>
  A machine with a dangling transition: \<open>A\<close> (initial) and \<open>B\<close>, and one transition
  from \<open>A\<close> to \<open>X\<close>, which is the identifier of no state.
\<close>

definition dangling_machine :: StateMachine where
  "dangling_machine =
     \<lparr>m_id = ''m3'', m_name = ''Dangling'', m_type = ''mealy'',
      states = [state_A, state_B], transitions = [edge ''A'' ''X'']\<rparr>"

text \<open>A machine whose only state is initial and has the empty string as identifier.\<close>

definition state_E :: State where
  "state_E = \<lparr>s_id = [], s_name = ''Start'', isInitial = True, isFinal = False\<rparr>"

definition empty_id_machine :: StateMachine where
  "empty_id_machine =
     \<lparr>m_id = ''m4'', m_name = ''Empty identifier'', m_type = ''mealy'',
      states = [state_E], transitions = []\<rparr>"

text \<open>
  Two states flagged initial, the first with the empty identifier, and a transition from
  the first to the second.
\<close>

definition state_D :: State where
  "state_D = \<lparr>s_id = ''D'', s_name = ''Second'', isInitial = True, isFinal = False\<rparr>"

definition two_initial_machine :: StateMachine where
  "two_initial_machine =
     \<lparr>m_id = ''m5'', m_name = ''Two initial'', m_type = ''mealy'',
      states = [state_E, state_D], transitions = [edge [] ''D'']\<rparr>"

lemmas example_defs =
  state_A_def state_B_def state_C_def state_D_def state_E_def edge_def
  scenario1_def scenario2_def dangling_machine_def empty_id_machine_def two_initial_machine_def

section \<open>Properties of the traversal\<close>

lemma expand_result:
  "expand c ts (R, q) = (R', q') \<Longrightarrow>
     R' = R \<union> {t_to t | t. t \<in> set ts \<and> t_from t = c} \<and> set q' = set q \<union> (R' - R)"
proof (induction ts arbitrary: R q)
  case Nil
  then show ?case by auto
next
  case (Cons t ts)
  show ?case
  proof (cases "t_from t = c \<and> t_to t \<notin> R")
    case True
    with Cons.prems have "expand c ts (insert (t_to t) R, q @ [t_to t]) = (R', q')"
      by simp
    from Cons.IH [OF this] True show ?thesis by auto
  next
    case False
    with Cons.prems have "expand c ts (R, q) = (R', q')"
      by auto
    from Cons.IH [OF this] False show ?thesis by auto
  qed
qed

lemma bfs_loop_mono: "R \<subseteq> bfs_loop ts q R"
proof (induction ts q R rule: bfs_loop.induct)
  case (1 ts R)
  show ?case by (simp add: bfs_loop.simps)
next
  case (2 ts c q R)
  obtain R' q' where e: "expand c ts (R, q) = (R', q')"
    by (cases "expand c ts (R, q)")
  from "2.IH" [of R' q'] e have "R' \<subseteq> bfs_loop ts q' R'" by simp
  moreover from expand_grows [OF e] have "R \<subseteq> R'" by simp
  ultimately show ?case using e by (auto simp: bfs_loop.simps)
qed

lemma bfs_loop_finite: "finite R \<Longrightarrow> finite (bfs_loop ts q R)"
proof (induction ts q R rule: bfs_loop.induct)
  case (1 ts R)
  then show ?case by (simp add: bfs_loop.simps)
next
  case (2 ts c q R)
  obtain R' q' where e: "expand c ts (R, q) = (R', q')"
    by (cases "expand c ts (R, q)")
  from expand_grows [OF e] have "R' \<subseteq> R \<union> t_to ` set ts" by simp
  with "2.prems" have "finite R'" by (auto intro: finite_subset)
  with "2.IH" [of R' q'] e show ?case by (simp add: bfs_loop.simps)
qed

lemma bfs_loop_closed:
  assumes "\<forall>s\<in>R. s \<in> set q \<or> (\<forall>t\<in>set ts. t_from t = s \<longrightarrow> t_to t \<in> R)"
  shows "\<forall>t\<in>set ts. t_from t \<in> bfs_loop ts q R \<longrightarrow> t_to t \<in> bfs_loop ts q R"
  using assms
proof (induction ts q R rule: bfs_loop.induct)
  case (1 ts R)
  then show ?case by (auto simp: bfs_loop.simps)
next
  case (2 ts c q R)
  obtain R' q' where e: "expand c ts (R, q) = (R', q')"
    by (cases "expand c ts (R, q)")
  from expand_result [OF e]
  have R': "R' = R \<union> {t_to t | t. t \<in> set ts \<and> t_from t = c}"
    and q': "set q' = set q \<union> (R' - R)" by auto
  have "\<forall>s\<in>R'. s \<in> set q' \<or> (\<forall>t\<in>set ts. t_from t = s \<longrightarrow> t_to t \<in> R')"
  proof
    fix s assume s: "s \<in> R'"
    show "s \<in> set q' \<or> (\<forall>t\<in>set ts. t_from t = s \<longrightarrow> t_to t \<in> R')"
    proof (cases "s \<in> R")
      case False
      with s q' show ?thesis by simp
    next
      case True
      with "2.prems" have "s \<in> set (c # q) \<or> (\<forall>t\<in>set ts. t_from t = s \<longrightarrow> t_to t \<in> R)"
        by blast
      then show ?thesis using R' q' by auto
    qed
  qed
  from "2.IH" [of R' q', OF _ this] e show ?case by (simp add: bfs_loop.simps)
qed

lemma reachable_closed:
  "t \<in> set (transitions m) \<Longrightarrow> t_from t \<in> reachableStatesBFS m \<Longrightarrow> t_to t \<in> reachableStatesBFS m"
  using bfs_loop_closed [of "{findInitial (states m)}" "[findInitial (states m)]" "transitions m"]
  by (auto simp: reachableStatesBFS_def Let_def split: if_splits)

lemma reachable_finite: "finite (reachableStatesBFS m)"
  by (simp add: reachableStatesBFS_def Let_def bfs_loop_finite)

lemma findInitial_find:
  "findInitial ss = (case find isInitial ss of None \<Rightarrow> [] | Some s \<Rightarrow> s_id s)"
  by (induction ss) auto

lemma reachable_initial:
  "find isInitial (states m) = Some s \<Longrightarrow> s_id s \<noteq> [] \<Longrightarrow> s_id s \<in> reachableStatesBFS m"
  using bfs_loop_mono [of "{s_id s}" "transitions m" "[s_id s]"]
  by (simp add: reachableStatesBFS_def Let_def findInitial_find)


lemma bfs_loop_sound:
  assumes "R \<subseteq> (edges ts)\<^sup>* `` S" "set q \<subseteq> (edges ts)\<^sup>* `` S"
  shows "bfs_loop ts q R \<subseteq> (edges ts)\<^sup>* `` S"
  using assms
proof (induction ts q R rule: bfs_loop.induct)
  case (1 ts R)
  then show ?case by (simp add: bfs_loop.simps)
next
  case (2 ts c q R)
  obtain R' q' where e: "expand c ts (R, q) = (R', q')"
    by (cases "expand c ts (R, q)")
  from expand_result [OF e]
  have R': "R' = R \<union> {t_to t | t. t \<in> set ts \<and> t_from t = c}"
    and q': "set q' = set q \<union> (R' - R)" by auto
  from "2.prems" have c: "c \<in> (edges ts)\<^sup>* `` S" by simp
  have "{t_to t | t. t \<in> set ts \<and> t_from t = c} \<subseteq> (edges ts)\<^sup>* `` S"
  proof
    fix y assume "y \<in> {t_to t | t. t \<in> set ts \<and> t_from t = c}"
    then have "(c, y) \<in> edges ts" by (auto simp: edges_def)
    with c show "y \<in> (edges ts)\<^sup>* `` S" by (auto intro: rtrancl_into_rtrancl)
  qed
  with "2.prems" R' q' have "R' \<subseteq> (edges ts)\<^sup>* `` S" "set q' \<subseteq> (edges ts)\<^sup>* `` S"
    by auto
  from "2.IH" [of R' q', OF _ this] e show ?case by (simp add: bfs_loop.simps)
qed

lemma bfs_loop_exact: "bfs_loop ts [a] {a} = (edges ts)\<^sup>* `` {a}"
proof
  show "bfs_loop ts [a] {a} \<subseteq> (edges ts)\<^sup>* `` {a}"
    by (rule bfs_loop_sound) auto
next
  have cl: "\<forall>t\<in>set ts. t_from t \<in> bfs_loop ts [a] {a} \<longrightarrow> t_to t \<in> bfs_loop ts [a] {a}"
    by (rule bfs_loop_closed) simp
  have a: "a \<in> bfs_loop ts [a] {a}"
    using bfs_loop_mono [of "{a}" ts "[a]"] by simp
  show "(edges ts)\<^sup>* `` {a} \<subseteq> bfs_loop ts [a] {a}"
  proof
    fix y assume "y \<in> (edges ts)\<^sup>* `` {a}"
    then have "(a, y) \<in> (edges ts)\<^sup>*" by simp
    then show "y \<in> bfs_loop ts [a] {a}"
    proof (induction rule: rtrancl_induct)
      case base
      show ?case by (rule a)
    next
      case (step y z)
      then obtain t where "t \<in> set ts" "t_from t = y" "t_to t = z"
        by (auto simp: edges_def)
      with cl step.IH show ?case by blast
    qed
  qed
qed

section \<open>Properties of the report and of the structural analysis\<close>

lemma countInitial_filter: "countInitial ss n = n + int (length (filter isInitial ss))"
  by (induction ss arbitrary: n) auto

lemma endpointsExist_iff:
  "endpointsExist ss t (f, g) = (f \<or> t_from t \<in> s_id ` set ss, g \<or> t_to t \<in> s_id ` set ss)"
  by (induction ss arbitrary: f g) auto

lemma isValid_checkInitial:
  "isValid (checkInitial m r) = (isValid r \<and> length (filter isInitial (states m)) = 1)"
proof -
  obtain n where n: "length (filter isInitial (states m)) = n" by simp
  show ?thesis
    unfolding checkInitial_def Let_def countInitial_filter n by auto
qed

lemma isValid_checkTransition:
  "isValid (checkTransition m t r) =
     (isValid r \<and> t_from t \<in> s_id ` set (states m) \<and> t_to t \<in> s_id ` set (states m))"
  by (auto simp: checkTransition_def Let_def endpointsExist_iff)

lemma isValid_checkTransitions:
  "isValid (checkTransitions m ts r) =
     (isValid r \<and> (\<forall>t\<in>set ts. t_from t \<in> s_id ` set (states m) \<and> t_to t \<in> s_id ` set (states m)))"
  by (induction ts arbitrary: r) (auto simp: isValid_checkTransition)

lemma isValid_checkReachability: "isValid (checkReachability m r) = isValid r"
  by (simp add: checkReachability_def Let_def)

lemma isValid_checkDeadlocks: "isValid (checkDeadlocks m r) = isValid r"
  by (simp add: checkDeadlocks_def Let_def)

lemma isValid_checkFinal: "isValid (checkFinal m r) = isValid r"
  by (simp add: checkFinal_def Let_def)

lemma isValid_makeSummary: "isValid (makeSummary m r) = isValid r"
  by (simp add: makeSummary_def)

lemmas isValid_later =
  isValid_checkReachability isValid_checkDeadlocks isValid_checkFinal isValid_makeSummary

lemma isDeadlock_loop_iff: "isDeadlock_loop ts x \<longleftrightarrow> (\<forall>t\<in>set ts. t_from t \<noteq> x)"
  by (induction ts) auto

lemma isLivelock_loop_iff: "isLivelock_loop ts x \<longleftrightarrow> (\<forall>t\<in>set ts. t_from t = x \<longrightarrow> t_to t = x)"
  by (induction ts) auto

lemma findDeadlocks_loop_filter:
  "findDeadlocks_loop m ss acc =
     acc @ map s_id (filter (\<lambda>s. isDeadlock m (s_id s) \<and> \<not> isFinal s) ss)"
  by (induction ss arbitrary: acc) auto

lemma canReachFinalState_loop_find:
  "canReachFinalState_loop R ss r =
     (case find (\<lambda>s. isFinal s \<and> s_id s \<in> R) ss of
        None \<Rightarrow> r
      | Some s \<Rightarrow> r\<lparr>isReachable := True,
            message := ''Final state '' @ [CHR 0x27] @ s_name s @ [CHR 0x27] @ '' is reachable''\<rparr>)"
  by (induction ss) auto

lemma find_SomeD: "find P xs = Some x \<Longrightarrow> P x \<and> x \<in> set xs"
  by (induction xs) (auto split: if_splits)


section \<open>The tokens read by the evaluator\<close>

lemma dropWhile_head: "dropWhile P s = c # cs \<Longrightarrow> \<not> P c"
  using hd_dropWhile [of P s] by simp

lemma extract_token_tokens:
  assumes e: "extract_token s = (t, r)"
  shows "spec_tokens s = (if t = [] then [] else t # spec_tokens r)"
proof -
  let ?s' = "dropWhile isspace s"
  from e have t: "t = takeWhile (\<lambda>c. \<not> isspace c) ?s'"
    and r: "r = dropWhile (\<lambda>c. \<not> isspace c) ?s'"
    by (auto simp: extract_token_def Let_def)
  show ?thesis
  proof (cases ?s')
    case Nil
    from t have "t = []" unfolding Nil by simp
    moreover have "spec_tokens s = []"
      by (subst spec_tokens.simps) (simp add: Nil)
    ultimately show ?thesis by simp
  next
    case (Cons c cs)
    then have "\<not> isspace c" by (rule dropWhile_head)
    with t have "t \<noteq> []" unfolding Cons by simp
    moreover have "spec_tokens s = t # spec_tokens r"
      by (subst spec_tokens.simps) (simp add: Cons t r)
    ultimately show ?thesis by simp
  qed
qed

lemma extract_token_empty:
  assumes e: "extract_token s = ([], r)"
  shows "r = []"
proof (cases "dropWhile isspace s")
  case Nil
  with e show ?thesis by (auto simp: extract_token_def Let_def)
next
  case (Cons c cs)
  then have "\<not> isspace c" by (rule dropWhile_head)
  with e Cons show ?thesis by (auto simp: extract_token_def Let_def)
qed

lemma extract_token_Nil: "extract_token [] = ([], [])"
  by (simp add: extract_token_def)

lemma spec_tokens_Nil: "spec_tokens [] = []"
  by (subst spec_tokens.simps) simp

lemma parseExpression_tokens:
  "parseExpression e = (spec_token 0 e, spec_token 1 e, spec_token 2 e)"
proof -
  obtain t1 r1 where e1: "extract_token e = (t1, r1)" by (cases "extract_token e")
  obtain t2 r2 where e2: "extract_token r1 = (t2, r2)" by (cases "extract_token r1")
  obtain t3 r3 where e3: "extract_token r2 = (t3, r3)" by (cases "extract_token r2")
  have p: "parseExpression e = (t1, t2, t3)"
    by (simp add: parseExpression_def e1 e2 e3)
  note k1 = extract_token_tokens [OF e1]
  note k2 = extract_token_tokens [OF e2]
  note k3 = extract_token_tokens [OF e3]
  show ?thesis
  proof (cases "t1 = []")
    case True
    with e1 have "r1 = []" by (simp add: extract_token_empty)
    with e2 have "t2 = []" "r2 = []" by (simp_all add: extract_token_Nil)
    with e3 have "t3 = []" by (simp add: extract_token_Nil)
    with True \<open>t2 = []\<close> k1 p show ?thesis by (simp add: spec_token_def)
  next
    case n1: False
    show ?thesis
    proof (cases "t2 = []")
      case True
      with e2 have "r2 = []" by (simp add: extract_token_empty)
      with e3 have "t3 = []" by (simp add: extract_token_Nil)
      with True n1 k1 k2 p show ?thesis by (simp add: spec_token_def)
    next
      case n2: False
      with n1 k1 k2 k3 p show ?thesis by (simp add: spec_token_def)
    qed
  qed
qed

lemma take_prefix_iff: "take (length p) xs = p \<longleftrightarrow> (\<exists>v. xs = p @ v)"
  by (metis append_eq_conv_conj append_take_drop_id)

lemma str_find_iff: "str_find s p \<noteq> None \<longleftrightarrow> (\<exists>u v. s = u @ p @ v)"
proof (induction s)
  case Nil
  show ?case by simp
next
  case (Cons c cs)
  have "(\<exists>u v. c # cs = u @ p @ v) \<longleftrightarrow> (\<exists>v. c # cs = p @ v) \<or> (\<exists>u v. cs = u @ p @ v)"
  proof
    assume "\<exists>u v. c # cs = u @ p @ v"
    then obtain u v where uv: "c # cs = u @ p @ v" by blast
    show "(\<exists>v. c # cs = p @ v) \<or> (\<exists>u v. cs = u @ p @ v)"
    proof (cases u)
      case Nil
      with uv show ?thesis by auto
    next
      case (Cons a u')
      with uv have "cs = u' @ p @ v" by simp
      then show ?thesis by blast
    qed
  next
    assume "(\<exists>v. c # cs = p @ v) \<or> (\<exists>u v. cs = u @ p @ v)"
    then show "\<exists>u v. c # cs = u @ p @ v"
    proof
      assume "\<exists>v. c # cs = p @ v"
      then obtain v where "c # cs = [] @ p @ v" by auto
      then show ?thesis by blast
    next
      assume "\<exists>u v. cs = u @ p @ v"
      then obtain u v where "c # cs = (c # u) @ p @ v" by auto
      then show ?thesis by blast
    qed
  qed
  with Cons.IH show ?case
    by (simp add: take_prefix_iff [of p "c # cs"] del: take_Suc_Cons)
qed

section \<open>Evaluation of the example machines\<close>

lemma set_getReachableStates: "set (getReachableStates m) = reachableStatesBFS m"
  by (simp add: getReachableStates_def reachable_finite)

lemma length_getReachableStates: "length (getReachableStates m) = card (reachableStatesBFS m)"
  by (simp add: getReachableStates_def)

lemma reachable_scenario1: "reachableStatesBFS scenario1 = {''A'', ''B'', ''C''}"
  by (auto simp: reachableStatesBFS_def bfs_loop.simps example_defs)

lemma reachable_scenario2: "reachableStatesBFS scenario2 = {''A''}"
  by (auto simp: reachableStatesBFS_def bfs_loop.simps example_defs)

lemma reachable_dangling: "reachableStatesBFS dangling_machine = {''A'', ''X''}"
  by (auto simp: reachableStatesBFS_def bfs_loop.simps example_defs)

lemma reachable_empty_id: "reachableStatesBFS empty_id_machine = {}"
  by (simp add: reachableStatesBFS_def example_defs)

lemma reachable_two_initial: "reachableStatesBFS two_initial_machine = {}"
  by (simp add: reachableStatesBFS_def example_defs)

lemma states_dangling: "states dangling_machine = [state_A, state_B]"
  by (simp add: dangling_machine_def)

lemma scenario2_fields:
  "states scenario2 = [state_A, state_B]" "transitions scenario2 = [edge ''A'' ''A'']"
  by (simp_all add: scenario2_def)

lemma findDeadlocks_dangling: "findDeadlocks dangling_machine = [''B'']"
  by (simp add: findDeadlocks_def isDeadlock_def example_defs)

lemma canReachFinalState_dangling: "\<not> isReachable (canReachFinalState dangling_machine)"
  by (simp add: canReachFinalState_def example_defs)

lemma tokens_example:
  "parseExpression ''a==b != Done'' = (''a==b'', ''!='', ''Done'')"
  by (simp add: parseExpression_def extract_token_def isspace_def)

section \<open>The report, field by field\<close>

lemma isValid_newReport: "isValid newReport"
  by (simp add: newReport_def)

lemma isValid_generateReport: "isValid (generateReport m) = isValid (structuralChecks m)"
  by (simp add: generateReport_def isValid_later)

lemma isValid_structuralChecks:
  "isValid (structuralChecks m) \<longleftrightarrow>
     length (filter isInitial (states m)) = 1 \<and>
     (\<forall>t\<in>set (transitions m). t_from t \<in> s_id ` set (states m) \<and> t_to t \<in> s_id ` set (states m))"
  by (simp add: structuralChecks_def isValid_checkTransitions isValid_checkInitial isValid_newReport)

lemma warnUnreachable_eq:
  "warnUnreachable rs ss ws =
     ws @ map (\<lambda>s. ''WARNING: Unreachable state: '' @ s_name s) (filter (\<lambda>s. s_id s \<notin> set rs) ss)"
  by (induction ss arbitrary: ws) auto

lemma warnDeadlocks_eq:
  "warnDeadlocks ds ws = ws @ map (\<lambda>d. ''WARNING: Potential deadlock state: '' @ d) ds"
  by (induction ds arbitrary: ws) auto

lemma warnings_checkInitial: "warnings (checkInitial m r) = warnings r"
  by (simp add: checkInitial_def Let_def)

lemma warnings_checkTransition: "warnings (checkTransition m t r) = warnings r"
  by (simp add: checkTransition_def Let_def split: prod.splits)

lemma warnings_checkTransitions: "warnings (checkTransitions m ts r) = warnings r"
  by (induction ts arbitrary: r) (simp_all add: warnings_checkTransition)

lemma warnings_structuralChecks: "warnings (structuralChecks m) = []"
  by (simp add: structuralChecks_def warnings_checkTransitions warnings_checkInitial newReport_def)

lemma warnings_checkReachability:
  "warnings (checkReachability m r) =
     (if card (reachableStatesBFS m) < length (states m)
      then warnings r @ map (\<lambda>s. ''WARNING: Unreachable state: '' @ s_name s)
             (filter (\<lambda>s. s_id s \<notin> reachableStatesBFS m) (states m))
      else warnings r)"
  by (simp add: checkReachability_def Let_def warnUnreachable_eq set_getReachableStates
      length_getReachableStates)

lemma warnings_checkDeadlocks:
  "warnings (checkDeadlocks m r) =
     warnings r @ map (\<lambda>d. ''WARNING: Potential deadlock state: '' @ d) (findDeadlocks m)"
  by (simp add: checkDeadlocks_def Let_def warnDeadlocks_eq)

lemma warnings_checkFinal:
  "warnings (checkFinal m r) =
     warnings r @ (if isReachable (canReachFinalState m) then []
                   else [''WARNING: No final state is reachable''])"
  by (simp add: checkFinal_def Let_def)

lemma warnings_generateReport:
  "warnings (generateReport m) =
     (if card (reachableStatesBFS m) < length (states m)
      then map (\<lambda>s. ''WARNING: Unreachable state: '' @ s_name s)
             (filter (\<lambda>s. s_id s \<notin> reachableStatesBFS m) (states m))
      else [])
     @ map (\<lambda>d. ''WARNING: Potential deadlock state: '' @ d) (findDeadlocks m)
     @ (if isReachable (canReachFinalState m) then []
        else [''WARNING: No final state is reachable''])"
  by (simp add: generateReport_def makeSummary_def warnings_checkFinal warnings_checkDeadlocks
      warnings_checkReachability warnings_structuralChecks)

lemma reachableStates_generateReport:
  "reachableStates (generateReport m) = int (card (reachableStatesBFS m))"
  by (simp add: generateReport_def makeSummary_def checkFinal_def checkDeadlocks_def
      checkReachability_def Let_def length_getReachableStates)

lemma totalStates_generateReport:
  "totalStates (generateReport m) = int (length (states m))"
  by (simp add: generateReport_def makeSummary_def checkFinal_def checkDeadlocks_def
      checkReachability_def Let_def)

lemma warnings_dangling:
  "warnings (generateReport dangling_machine) =
     [''WARNING: Potential deadlock state: B'', ''WARNING: No final state is reachable'']"
  by (simp add: warnings_generateReport reachable_dangling findDeadlocks_dangling
      canReachFinalState_dangling states_dangling)

section \<open>The invariant check, state by state\<close>

lemma findState_None_iff: "findState ss x = None \<longleftrightarrow> x \<notin> s_id ` set ss"
  by (induction ss) auto

lemma findState_find: "findState ss x = find (\<lambda>s. s_id s = x) ss"
  by (induction ss) auto

lemma holds_checkInvariant_loop:
  "holds (checkInvariant_loop m e xs r) =
     (if \<forall>x\<in>set xs. evaluateExpression e m x then holds r else False)"
  by (induction xs) auto

lemma holds_checkInvariant:
  "holds (checkInvariant m e) = (\<forall>x\<in>reachableStatesBFS m. evaluateExpression e m x)"
  by (simp add: checkInvariant_def holds_checkInvariant_loop set_getReachableStates)

lemma evaluateExpression_no_operator:
  "str_find e ''!='' = None \<Longrightarrow> str_find e ''=='' = None \<Longrightarrow>
     evaluateExpression e m x = (x \<in> s_id ` set (states m))"
  using findState_None_iff [of "states m" x]
  by (auto simp: evaluateExpression_def split: option.splits)

section \<open>What the traversal computes\<close>

text \<open>
  From a seed with a non-empty identifier the traversal computes the identifiers that the
  edges reach from it; with no state flagged initial, or with the empty string as the
  identifier of the first one, it computes the empty set.
\<close>

lemma reachableStatesBFS_char:
  "reachableStatesBFS m =
     (case find isInitial (states m) of
        None \<Rightarrow> {}
      | Some s \<Rightarrow> if s_id s = [] then {} else (edges (transitions m))\<^sup>* `` {s_id s})"
  by (simp add: reachableStatesBFS_def Let_def findInitial_find bfs_loop_exact split: option.splits)

section \<open>The claims\<close>

subsection \<open>C1: validity of the report\<close>

text \<open>
  C1. For every machine, \<^verbatim>\<open>generateReport\<close> returns \<^verbatim>\<open>isValid == true\<close> if and
  only if exactly one state has \<^verbatim>\<open>isInitial\<close> set and the \<^verbatim>\<open>from\<close> and the
  \<^verbatim>\<open>to\<close> identifier of every transition are identifiers of states in the state list.
  The right-hand side mentions neither unreachable states nor deadlocks nor final states:
  nothing else affects \<^verbatim>\<open>isValid\<close>.
\<close>

theorem generateReport_isValid_iff: "isValid (generateReport m) \<longleftrightarrow>
  length (filter isInitial (states m)) = 1 \<and>
  (\<forall>t\<in>set (transitions m). t_from t \<in> s_id ` set (states m) \<and> t_to t \<in> s_id ` set (states m))"
  by (simp add: isValid_generateReport isValid_structuralChecks)

text \<open>
  Scenario 1 has one initial state and no dangling transition, and its report is valid.
\<close>

theorem generateReport_isValid_iff_witness:
  "length (filter isInitial (states scenario1)) = 1
   \<and> t_from ` set (transitions scenario1) \<subseteq> s_id ` set (states scenario1)
   \<and> t_to ` set (transitions scenario1) \<subseteq> s_id ` set (states scenario1)
   \<and> isValid (generateReport scenario1)"
  using generateReport_isValid_iff [of scenario1] by (simp add: example_defs)

subsection \<open>C2: the reachable set and the initial state\<close>

text \<open>
  The second half of C2 holds for every machine: the computed set is closed under the
  transitions (lemma \<open>reachable_closed\<close>). The first half holds when the identifier of
  the first state flagged initial is not the empty string (lemma \<open>reachable_initial\<close>).
\<close>

text \<open>
  C2. The claim is that the reachable set contains the selected initial state whenever one
  exists. The code keeps the identifier of the selected state in a string that starts
  empty, and returns the empty set when that string is empty, under the comment
  \<^verbatim>\<open>// No initial state\<close>. A machine whose first initial state has the empty
  string as identifier takes that return: its initial state exists and is not in the
  computed set. The report of the same machine counts the initial state by its flag and
  is valid, with no reachable state.
\<close>

theorem reachable_misses_empty_id_initial:
  "find isInitial (states empty_id_machine) = Some state_E
   \<and> s_id state_E \<notin> reachableStatesBFS empty_id_machine
   \<and> isValid (generateReport empty_id_machine)
   \<and> reachableStates (generateReport empty_id_machine) = 0"
  by (simp add: reachable_empty_id isValid_generateReport isValid_structuralChecks
      reachableStates_generateReport) (simp add: example_defs)

subsection \<open>C3: warnings for unreachable states\<close>

text \<open>
  The loop that writes the warnings tests each state for membership in the vector of
  reachable identifiers, and it stands inside a comparison of two counts. When every
  reachable identifier is the identifier of a state, a state outside the reachable set
  makes the first count the smaller one, and the state is warned about.
\<close>

lemma unreachable_warned_without_dangling:
  assumes sub: "reachableStatesBFS m \<subseteq> s_id ` set (states m)"
    and s: "s \<in> set (states m)" and un: "s_id s \<notin> reachableStatesBFS m"
  shows "''WARNING: Unreachable state: '' @ s_name s \<in> set (warnings (generateReport m))"
proof -
  from sub s un have "reachableStatesBFS m \<subset> s_id ` set (states m)" by auto
  then have "card (reachableStatesBFS m) < card (s_id ` set (states m))"
    by (intro psubset_card_mono) auto
  also have "\<dots> \<le> card (set (states m))" by (rule card_image_le) simp
  also have "\<dots> \<le> length (states m)" by (rule card_length)
  finally have "card (reachableStatesBFS m) < length (states m)" .
  with s un show ?thesis by (auto simp: warnings_generateReport)
qed

text \<open>
  C3. The claim is that every state of the list whose identifier is absent from the
  reachable set gets a warning that names it as unreachable, and that such warnings never
  change \<^verbatim>\<open>isValid\<close>. The second part holds (lemma \<open>isValid_generateReport\<close>). The
  first part fails on the machine with the states \<open>A\<close> (initial) and \<open>B\<close> and the
  dangling transition \<open>A \<rightarrow> X\<close>: the reachable set \<open>{A, X}\<close> has as many identifiers as
  the list has states, so the comparison \<^verbatim>\<open>reachableStates < totalStates\<close> is false and
  the membership loop is skipped. The state \<open>B\<close> is in the list, its identifier is not
  in the reachable set, \<^verbatim>\<open>isStateReachable\<close> reports it as not reachable, and the report
  has no warning for it.
\<close>

theorem unreachable_warning_missing:
  "state_B \<in> set (states dangling_machine)
   \<and> s_id state_B \<notin> reachableStatesBFS dangling_machine
   \<and> \<not> isReachable (isStateReachable dangling_machine (s_id state_B))
   \<and> ''WARNING: Unreachable state: '' @ s_name state_B
       \<notin> set (warnings (generateReport dangling_machine))"
  by (simp add: warnings_dangling reachable_dangling states_dangling isStateReachable_def)
    (simp add: state_B_def)

subsection \<open>C4: expressions without an operator\<close>

text \<open>
  \<open>str_find s p \<noteq> None\<close> is containment of \<open>p\<close> in \<open>s\<close> as a substring
  (lemma \<open>str_find_iff\<close>).

  C4, as amended. For every machine and every expression that contains neither
  \<^verbatim>\<open>!=\<close> nor \<^verbatim>\<open>==\<close>, \<^verbatim>\<open>checkInvariant\<close> returns \<^verbatim>\<open>holds == true\<close>
  if and only if every identifier in the reachable set is the identifier of a state in the
  state list. The evaluator looks the state up before it reads the expression and answers
  false when there is none.
\<close>

theorem checkInvariant_no_operator:
  "str_find e ''!='' = None \<Longrightarrow> str_find e ''=='' = None \<Longrightarrow>
     holds (checkInvariant m e) = (reachableStatesBFS m \<subseteq> s_id ` set (states m))"
  by (auto simp: holds_checkInvariant evaluateExpression_no_operator)

text \<open>
  In scenario 1 every reachable identifier is a state, and the invariant \<open>stable\<close>
  holds.
\<close>

theorem checkInvariant_no_operator_witness:
  "str_find ''stable'' ''!='' = None \<and> str_find ''stable'' ''=='' = None
   \<and> reachableStatesBFS scenario1 \<subseteq> s_id ` set (states scenario1)
   \<and> holds (checkInvariant scenario1 ''stable'')"
  using checkInvariant_no_operator [of "''stable''" scenario1]
  by (simp add: reachable_scenario1) (simp add: example_defs)

text \<open>
  C4 as stated fails on the machine with the dangling transition: \<open>X\<close> is reachable
  and is no state, so the check of \<open>stable\<close>, which has no operator, does not hold.
\<close>

theorem checkInvariant_no_operator_fails:
  "str_find ''stable'' ''!='' = None \<and> str_find ''stable'' ''=='' = None
   \<and> \<not> holds (checkInvariant dangling_machine ''stable'')"
  by (simp add: holds_checkInvariant reachable_dangling evaluateExpression_def states_dangling)
    (simp add: example_defs)

subsection \<open>C5: the seed of the traversal\<close>

text \<open>
  C5. The claim is that the traversal is seeded by the first state flagged initial. Its
  second half holds: with no state flagged initial the computed set is empty (lemma
  \<open>reachableStatesBFS_char\<close>). The first half fails, by the same early return as in C2,
  when the first state flagged initial has the empty identifier: the traversal seeded by
  that state would reach the empty identifier and \<open>D\<close>, and the code returns the empty
  set.
\<close>

theorem seed_empty_id_discarded:
  "find isInitial (states two_initial_machine) = Some state_E
   \<and> reachableStatesBFS two_initial_machine = {}
   \<and> bfs_loop (transitions two_initial_machine) [s_id state_E] {s_id state_E} = {[], ''D''}"
  by (simp add: reachable_two_initial) (auto simp: example_defs bfs_loop.simps)

subsection \<open>C6: the inequality check\<close>

text \<open>
  C6. For every machine, every expression that contains \<^verbatim>\<open>!=\<close> and every
  identifier that the lookup resolves to a state, the predicate of that state holds if and
  only if the name of the state differs from the third white-space separated token of the
  expression (the empty string when the expression has fewer than three tokens). There is
  no assumption on \<^verbatim>\<open>==\<close>, so the inequality is chosen also when the expression
  contains it, and the right-hand side does not mention the first token.
\<close>

theorem evaluateExpression_inequality:
  "str_find e ''!='' \<noteq> None \<Longrightarrow> findState (states m) sid = Some s \<Longrightarrow>
     evaluateExpression e m sid = (s_name s \<noteq> spec_token 2 e)"
  by (simp add: evaluateExpression_def parseExpression_tokens)

text \<open>
  The expression \<open>a==b != Done\<close> contains both operators; its third token is
  \<open>Done\<close>, the name of state \<open>C\<close> of scenario 1, where the predicate is false.
\<close>

theorem evaluateExpression_inequality_witness:
  "str_find ''a==b != Done'' ''!='' \<noteq> None \<and> str_find ''a==b != Done'' ''=='' \<noteq> None
   \<and> findState (states scenario1) ''C'' = Some state_C
   \<and> spec_token 2 ''a==b != Done'' = ''Done'' \<and> s_name state_C = ''Done''
   \<and> \<not> evaluateExpression ''a==b != Done'' scenario1 ''C''"
proof -
  have f: "str_find ''a==b != Done'' ''!='' \<noteq> None" by simp
  have g: "findState (states scenario1) ''C'' = Some state_C" by (simp add: example_defs)
  have t: "spec_token 2 ''a==b != Done'' = ''Done''"
    using parseExpression_tokens [of "''a==b != Done''"] by (simp add: tokens_example)
  from evaluateExpression_inequality [OF f g] t f g show ?thesis by (simp add: state_C_def)
qed

subsection \<open>C7: deadlocks\<close>

text \<open>
  C7. For every machine, \<^verbatim>\<open>findDeadlocks\<close> returns, in the order of the state list,
  exactly the identifiers of the states that have no transition from them and are not flagged
  final; so every identifier it returns comes from a state that is not flagged final. The
  result does not depend on reachability: it is the same whatever states are flagged
  initial.
\<close>

theorem findDeadlocks_exact:
  "findDeadlocks m =
     map s_id (filter (\<lambda>s. (\<forall>t\<in>set (transitions m). t_from t \<noteq> s_id s) \<and> \<not> isFinal s) (states m))
   \<and> (\<forall>x\<in>set (findDeadlocks m). \<exists>s\<in>set (states m). s_id s = x \<and> \<not> isFinal s)
   \<and> findDeadlocks (m\<lparr>states := map (\<lambda>s. s\<lparr>isInitial := f s\<rparr>) (states m)\<rparr>) = findDeadlocks m"
proof (intro conjI)
  show eq: "findDeadlocks m =
      map s_id (filter (\<lambda>s. (\<forall>t\<in>set (transitions m). t_from t \<noteq> s_id s) \<and> \<not> isFinal s) (states m))"
    by (simp add: findDeadlocks_def findDeadlocks_loop_filter isDeadlock_def isDeadlock_loop_iff)
  show "\<forall>x\<in>set (findDeadlocks m). \<exists>s\<in>set (states m). s_id s = x \<and> \<not> isFinal s"
    unfolding eq by auto
  show "findDeadlocks (m\<lparr>states := map (\<lambda>s. s\<lparr>isInitial := f s\<rparr>) (states m)\<rparr>) = findDeadlocks m"
    by (simp add: findDeadlocks_def findDeadlocks_loop_filter isDeadlock_def isDeadlock_loop_iff
        filter_map comp_def)
qed

text \<open>
  In scenario 2 the state \<open>B\<close> is the only deadlock; it is not reachable.
\<close>

theorem findDeadlocks_exact_witness: "findDeadlocks scenario2 = [''B'']"
proof -
  from findDeadlocks_exact [of scenario2 isInitial]
  have "findDeadlocks scenario2 =
      map s_id (filter (\<lambda>s. (\<forall>t\<in>set (transitions scenario2). t_from t \<noteq> s_id s) \<and> \<not> isFinal s)
        (states scenario2))"
    by (rule conjunct1)
  then show ?thesis by (simp add: scenario2_fields state_A_def state_B_def edge_def)
qed

subsection \<open>C8: a deadlock is a livelock\<close>

text \<open>
  C8. For every machine and every state identifier, \<^verbatim>\<open>isDeadlock\<close> implies
  \<^verbatim>\<open>isLivelock\<close>.
\<close>

theorem isDeadlock_isLivelock: "isDeadlock m s \<Longrightarrow> isLivelock m s"
  by (simp add: isDeadlock_def isLivelock_def isDeadlock_loop_iff isLivelock_loop_iff)

text \<open>
  State \<open>C\<close> of scenario 1 has no outgoing transition.
\<close>

theorem isDeadlock_isLivelock_witness: "isDeadlock scenario1 ''C'' \<and> isLivelock scenario1 ''C''"
proof -
  have d: "isDeadlock scenario1 ''C''" by (simp add: isDeadlock_def example_defs)
  from isDeadlock_isLivelock [OF d] d show ?thesis by simp
qed

subsection \<open>C9: reachability of a final state\<close>

text \<open>
  C9. For every machine, \<^verbatim>\<open>canReachFinalState\<close> returns
  \<^verbatim>\<open>isReachable == true\<close> if and only if some state flagged final has its identifier
  in the reachable set; and then the message names the first such state of the state
  list.
\<close>

theorem canReachFinalState_iff:
  "(isReachable (canReachFinalState m) \<longleftrightarrow>
      (\<exists>s\<in>set (states m). isFinal s \<and> s_id s \<in> reachableStatesBFS m))
   \<and> (isReachable (canReachFinalState m) \<longrightarrow>
      (\<exists>s. find (\<lambda>s. isFinal s \<and> s_id s \<in> reachableStatesBFS m) (states m) = Some s
         \<and> message (canReachFinalState m)
           = ''Final state '' @ [CHR 0x27] @ s_name s @ [CHR 0x27] @ '' is reachable''))"
  by (auto simp: canReachFinalState_def canReachFinalState_loop_find find_None_iff
      split: option.splits dest: find_SomeD)

text \<open>
  In scenario 1 the final state \<open>C\<close>, named \<open>Done\<close>, is reachable.
\<close>

theorem canReachFinalState_iff_witness:
  "isReachable (canReachFinalState scenario1)
   \<and> find (\<lambda>s. isFinal s \<and> s_id s \<in> reachableStatesBFS scenario1) (states scenario1) = Some state_C
   \<and> message (canReachFinalState scenario1)
       = ''Final state '' @ [CHR 0x27] @ ''Done'' @ [CHR 0x27] @ '' is reachable''"
  using canReachFinalState_iff [of scenario1] by (simp add: reachable_scenario1) (simp add: example_defs)

subsection \<open>C10: a dangling target is counted\<close>

text \<open>
  C10. There is a machine with a transition whose target names no state, where the
  reachable set contains that target and \<^verbatim>\<open>reachableStates\<close> counts it: the field
  is the size of the reachable set, it exceeds the number of reachable identifiers that
  are states, and it is not below \<^verbatim>\<open>totalStates\<close> although a state of the list is
  unreachable.
\<close>

theorem dangling_target_counted:
  "\<exists>m t s. t \<in> set (transitions m) \<and> t_to t \<notin> s_id ` set (states m)
     \<and> t_to t \<in> reachableStatesBFS m
     \<and> reachableStates (generateReport m) = int (card (reachableStatesBFS m))
     \<and> int (card (reachableStatesBFS m \<inter> s_id ` set (states m))) < reachableStates (generateReport m)
     \<and> totalStates (generateReport m) \<le> reachableStates (generateReport m)
     \<and> s \<in> set (states m) \<and> s_id s \<notin> reachableStatesBFS m"
proof (intro exI conjI)
  show "edge ''A'' ''X'' \<in> set (transitions dangling_machine)"
    by (simp add: dangling_machine_def)
  show "t_to (edge ''A'' ''X'') \<notin> s_id ` set (states dangling_machine)"
    by (simp add: example_defs)
  show "t_to (edge ''A'' ''X'') \<in> reachableStatesBFS dangling_machine"
    by (simp add: reachable_dangling edge_def)
  show "reachableStates (generateReport dangling_machine)
      = int (card (reachableStatesBFS dangling_machine))"
    by (rule reachableStates_generateReport)
  have "reachableStatesBFS dangling_machine \<inter> s_id ` set (states dangling_machine) = {''A''}"
    by (auto simp: reachable_dangling states_dangling state_A_def state_B_def)
  then show "int (card (reachableStatesBFS dangling_machine \<inter> s_id ` set (states dangling_machine)))
      < reachableStates (generateReport dangling_machine)"
    by (simp add: reachableStates_generateReport reachable_dangling)
  show "totalStates (generateReport dangling_machine)
      \<le> reachableStates (generateReport dangling_machine)"
    by (simp add: reachableStates_generateReport totalStates_generateReport reachable_dangling
        states_dangling)
  show "state_B \<in> set (states dangling_machine)"
    by (simp add: states_dangling)
  show "s_id state_B \<notin> reachableStatesBFS dangling_machine"
    by (simp add: reachable_dangling state_B_def)
qed

end
